theory Spec2Isabelle
  imports Complex_Main
begin

section \<open>Common data model\<close>

text \<open>
  Python strings are modelled as \<open>string\<close>; one \<open>char\<close> stands for one code point of
  the Python string.  Python integers are unbounded and modelled as \<open>int\<close>.  Every
  \<open>raise\<close> of the source is a value \<open>Inl e\<close> of a sum type; \<open>ValueError\<close> carries
  the message of the source.
\<close>

datatype error =
    ValueError string
  | IndexError
  | TypeError
  | AttributeError
  | OverflowError
  | ZeroDivisionError

text \<open>A qubit (or classical bit) is a register name together with an index into it.\<close>

datatype qubit = Qubit string nat

text \<open>
  The gate operations the two programs emit.  The angle of a controlled phase rotation
  \<open>CP c ctl tgt\<close> is given by its coefficient \<open>c\<close>: the angle is \<open>c\<close> times the
  constant \<open>np.pi\<close>.
\<close>

datatype gate =
    X qubit
  | H qubit
  | CX qubit qubit
  | MCX "qubit list" qubit
  | SWAP qubit qubit
  | CP rat qubit qubit

record circuit =
  qregs :: "(string \<times> nat) list"
  cregs :: "(string \<times> nat) list"
  gates :: "gate list"
  measured :: "(qubit \<times> qubit) list"

text \<open>\<open>QuantumRegister(size, name)\<close>, seen as the list of its qubits.\<close>

definition register :: "nat \<Rightarrow> string \<Rightarrow> qubit list" where
  "register sz name = map (Qubit name) [0..<sz]"

text \<open>
  \<open>str(i)\<close> of a Python integer, as the f-strings of the source print it.  \<open>decimal\<close>
  gives the decimal digits of a natural number.  CPython 3.11 converts no integer of
  more than 4300 decimal digits (the sign is not counted, 4300 is the default of
  \<open>sys.set_int_max_str_digits\<close>): \<open>str\<close> raises \<open>ValueError\<close> with the message
  \<open>digit_limit_message\<close> then.
\<close>

fun decimal :: "nat \<Rightarrow> string" where
  "decimal n =
     (if n < 10 then [''0123456789'' ! n]
      else decimal (n div 10) @ [''0123456789'' ! (n mod 10)])"

declare decimal.simps [simp del]

definition digit_limit_message :: string where
  "digit_limit_message =
     ''Exceeds the limit (4300 digits) for integer string conversion; ''
     @ ''use sys.set_int_max_str_digits() to increase the limit''"

definition str_int :: "int \<Rightarrow> error + string" where
  "str_int i =
     (let digits = decimal (nat \<bar>i\<bar>)
      in if 4300 < length digits then Inl (ValueError digit_limit_message)
         else Inr (if i < 0 then CHR ''-'' # digits else digits))"

section \<open>Deutsch-Jozsa: \<open>DEUTSCH_JOZSA/deutsch_jozsa.py\<close>\<close>

record dj =
  n_qubits :: int
  oracle_type :: string
  constant_value :: int
  custom_bitstring :: "string option"
  shots :: int

text \<open>
  \<open>_generate_random_balanced_oracle\<close>: half \<open>0\<close>s and half \<open>1\<close>s, shuffled.  The
  shuffle is the environment's: \<open>shuffle\<close> is the permutation \<open>random.shuffle\<close> applies.
\<close>

definition generate_random_balanced_oracle :: "(string \<Rightarrow> string) \<Rightarrow> int \<Rightarrow> string" where
  "generate_random_balanced_oracle shuffle n =
     (let total_inputs = (2::nat) ^ nat n;
          balanced_bits = replicate (total_inputs div 2) CHR ''0''
                        @ replicate (total_inputs div 2) CHR ''1''
      in shuffle balanced_bits)"

text \<open>
  \<open>DeutschJozsaAlgorithm.__init__\<close>, with the checks in the order of the source.  The
  arguments are typed, so the \<open>isinstance\<close> tests are true.
\<close>

definition valid_oracle_types :: "string list" where
  "valid_oracle_types = [''constant'', ''balanced'', ''custom'']"

text \<open>
  The f-string of the length error, \<open>n_qubits\<close> printed first and \<open>2**n_qubits\<close> second;
  an error raised while it is formatted is the error of \<open>__init__\<close>.
\<close>

definition length_message :: "int \<Rightarrow> error + string" where
  "length_message n =
     (case str_int n of
        Inl e \<Rightarrow> Inl e
      | Inr exponent \<Rightarrow>
          (case str_int (2 ^ nat n) of
             Inl e \<Rightarrow> Inl e
           | Inr len \<Rightarrow>
               Inr (''Custom bitstring length must be 2^'' @ exponent @ '' = '' @ len)))"

definition init ::
  "(string \<Rightarrow> string) \<Rightarrow> int \<Rightarrow> string \<Rightarrow> int \<Rightarrow> string option \<Rightarrow> int \<Rightarrow> error + dj" where
  "init shuffle n otype cval bitstring nshots =
     (if n \<le> 0 then Inl (ValueError ''N must be a positive integer.'')
      else if otype \<notin> set valid_oracle_types
        then Inl (ValueError ''Oracle type must be one of: constant, balanced, custom'')
      else if cval \<notin> set [0, 1] then Inl (ValueError ''Constant value must be 0 or 1.'')
      else
        (case (if otype = ''custom''
               then (case bitstring of
                       None \<Rightarrow> Inr (Some (generate_random_balanced_oracle shuffle n))
                     | Some bs \<Rightarrow>
                         if int (length bs) \<noteq> 2 ^ nat n
                           then (case length_message n of
                                   Inl e \<Rightarrow> Inl e
                                 | Inr message \<Rightarrow> Inl (ValueError message))
                         else if \<not> list_all (\<lambda>bit. bit \<in> set ''01'') bs
                           then Inl (ValueError ''Custom bitstring must contain only 0 and 1'')
                         else Inr (Some bs))
               else Inr bitstring) of
           Inl e \<Rightarrow> Inl e
         | Inr stored \<Rightarrow>
             if nshots \<le> 0 then Inl (ValueError ''Number of shots must be a positive integer.'')
             else Inr \<lparr>n_qubits = n, oracle_type = otype, constant_value = cval,
                       custom_bitstring = stored, shots = nshots\<rparr>))"

text \<open>
  \<open>validate_oracle\<close>.  A call that falls off the end of the Python function returns
  \<open>None\<close>; \<open>count\<close> on a \<open>custom_bitstring\<close> that is \<open>None\<close> raises
  \<open>AttributeError\<close>; the f-string of the last branch prints the two counts with
  \<open>str\<close>.
\<close>

definition count_char :: "char \<Rightarrow> string \<Rightarrow> nat" where
  "count_char c s = length (filter (\<lambda>x. x = c) s)"

definition neither_message :: "nat \<Rightarrow> nat \<Rightarrow> error + string" where
  "neither_message ones total_len =
     (case str_int (int ones) of
        Inl e \<Rightarrow> Inl e
      | Inr ones_text \<Rightarrow>
          (case str_int (int total_len - int ones) of
             Inl e \<Rightarrow> Inl e
           | Inr zeros_text \<Rightarrow>
               Inr (''neither (ones: '' @ ones_text @ '', zeros: '' @ zeros_text @ '')'')))"

definition validate_oracle :: "dj \<Rightarrow> error + string option" where
  "validate_oracle self =
     (if oracle_type self = ''constant'' then Inr (Some ''constant'')
      else if oracle_type self = ''balanced'' then Inr (Some ''balanced'')
      else if oracle_type self = ''custom'' then
        (case custom_bitstring self of
           None \<Rightarrow> Inl AttributeError
         | Some bs \<Rightarrow>
             (let ones_count = count_char CHR ''1'' bs;
                  total_len = length bs
              in if ones_count = 0 \<or> ones_count = total_len then Inr (Some ''constant'')
                 else if ones_count = total_len div 2 then Inr (Some ''balanced'')
                 else (case neither_message ones_count total_len of
                         Inl e \<Rightarrow> Inl e
                       | Inr report \<Rightarrow> Inr (Some report))))
      else Inr None)"

text \<open>
  \<open>format(i, f'0{n}b')\<close>: the binary digits of \<open>i\<close>, most significant first, padded
  with zeros on the left to width \<open>n\<close>.
\<close>

fun bin_digits :: "nat \<Rightarrow> string" where
  "bin_digits i =
     (if i < 2 then [if i = 0 then CHR ''0'' else CHR ''1'']
      else bin_digits (i div 2) @ [if i mod 2 = 0 then CHR ''0'' else CHR ''1''])"

declare bin_digits.simps [simp del]

definition format_binary :: "nat \<Rightarrow> nat \<Rightarrow> string" where
  "format_binary i n = (let ds = bin_digits i in replicate (n - length ds) CHR ''0'' @ ds)"

text \<open>
  \<open>_create_oracle\<close>.  The circuit \<open>qc\<close> is mutated by the source; here the list of
  its gates is passed in and the extended list returned.  The body of the loop of the
  custom oracle for one index \<open>i\<close> is \<open>custom_body\<close>; \<open>custom_loop\<close> runs it over the
  indices, reading \<open>custom_bitstring[i]\<close> (an \<open>IndexError\<close> out of range).
\<close>

definition custom_flips :: "qubit list \<Rightarrow> string \<Rightarrow> gate list" where
  "custom_flips qubits binary =
     map (\<lambda>j. X (qubits ! j)) (filter (\<lambda>j. binary ! j = CHR ''0'') [0..<length qubits])"

definition custom_body :: "qubit list \<Rightarrow> qubit \<Rightarrow> nat \<Rightarrow> gate list" where
  "custom_body qubits target_qubit i =
     (let n = length qubits;
          binary = format_binary i n
      in custom_flips qubits binary
         @ [if n = 1 then CX (qubits ! 0) target_qubit else MCX qubits target_qubit]
         @ custom_flips qubits binary)"

fun custom_loop :: "string \<Rightarrow> qubit list \<Rightarrow> qubit \<Rightarrow> nat list \<Rightarrow> gate list \<Rightarrow> error + gate list" where
  "custom_loop bs qubits target_qubit [] qc = Inr qc"
| "custom_loop bs qubits target_qubit (i # rest) qc =
     (if length bs \<le> i then Inl IndexError
      else if bs ! i = CHR ''1''
        then custom_loop bs qubits target_qubit rest (qc @ custom_body qubits target_qubit i)
      else custom_loop bs qubits target_qubit rest qc)"

definition create_oracle :: "dj \<Rightarrow> gate list \<Rightarrow> qubit list \<Rightarrow> qubit \<Rightarrow> error + gate list" where
  "create_oracle self qc qubits target_qubit =
     (if oracle_type self = ''constant'' then
        (if constant_value self = 1 then Inr (qc @ [X target_qubit]) else Inr qc)
      else if oracle_type self = ''balanced'' then
        (if qubits = [] then Inl IndexError
         else Inr (qc @ [CX (qubits ! 0) target_qubit]
                      @ map (\<lambda>i. CX (qubits ! i) target_qubit) [1..<length qubits]))
      else if oracle_type self = ''custom'' then
        (case custom_bitstring self of
           None \<Rightarrow> Inl TypeError
         | Some bs \<Rightarrow> custom_loop bs qubits target_qubit [0..<2 ^ length qubits] qc)
      else Inr qc)"

text \<open>
  The custom oracle as the specification words it: for each index \<open>i\<close> in ascending
  order whose character is \<open>1\<close>, bit-flips on the input qubits whose bit of the
  \<open>n\<close>-bit binary representation of \<open>i\<close> is 0 (qubit \<open>j\<close> stands for the \<open>j\<close>-th
  digit, most significant first), one multi-controlled bit-flip (a controlled bit-flip
  when \<open>n = 1\<close>), and the same bit-flips again.
\<close>

definition spec_flips :: "qubit list \<Rightarrow> nat \<Rightarrow> gate list" where
  "spec_flips qubits i =
     map (\<lambda>j. X (qubits ! j))
       (filter (\<lambda>j. \<not> bit i (length qubits - 1 - j)) [0..<length qubits])"

definition spec_custom_oracle :: "string \<Rightarrow> qubit list \<Rightarrow> qubit \<Rightarrow> gate list" where
  "spec_custom_oracle bs qubits target_qubit =
     concat (map (\<lambda>i. if bs ! i = CHR ''1''
                       then spec_flips qubits i
                            @ [if length qubits = 1 then CX (qubits ! 0) target_qubit
                               else MCX qubits target_qubit]
                            @ spec_flips qubits i
                       else [])
                 [0..<2 ^ length qubits])"

subsection \<open>Integer true division\<close>

text \<open>
  Python's \<open>a / b\<close> on two integers is the quotient correctly rounded to a binary64
  float (round half to even), \<open>ZeroDivisionError\<close> when \<open>b = 0\<close> and \<open>OverflowError\<close>
  when the rounded quotient does not fit.  The float is modelled by the rational number
  it denotes.  \<open>bit_length\<close> is \<open>int.bit_length\<close>; \<open>round_half_even a b\<close> is the
  integer nearest to \<open>a / b\<close> for \<open>b > 0\<close>; \<open>scale2 t q\<close> is \<open>t * 2 ** q\<close>.
\<close>

function bit_length :: "int \<Rightarrow> nat" where
  "bit_length n = (if n = 0 then 0 else Suc (bit_length (\<bar>n\<bar> div 2)))"
  by pat_completeness auto
termination
  by (relation "measure (\<lambda>n. nat \<bar>n\<bar>)") auto

declare bit_length.simps [simp del]

definition round_half_even :: "int \<Rightarrow> int \<Rightarrow> int" where
  "round_half_even a b =
     (let q = a div b; r = a mod b
      in if 2 * r < b then q else if b < 2 * r then q + 1 else if even q then q else q + 1)"

definition scale2 :: "int \<Rightarrow> int \<Rightarrow> rat" where
  "scale2 t q = (if 0 \<le> q then of_int (t * 2 ^ nat q) else Fract t (2 ^ nat (- q)))"

definition float_magnitude :: "int \<Rightarrow> int \<Rightarrow> error + rat" where
  "float_magnitude a b =
     (if a = 0 then Inr 0
      else
        (let e0 = int (bit_length a) - int (bit_length b);
             e = (if b * 2 ^ nat e0 \<le> a * 2 ^ nat (- e0) then e0 else e0 - 1);
             q = max e (- 1022) - 52;
             t = round_half_even (a * 2 ^ nat (- q)) (b * 2 ^ nat q)
         in if 2 ^ 1024 \<le> scale2 t q then Inl OverflowError else Inr (scale2 t q)))"

definition true_div :: "int \<Rightarrow> int \<Rightarrow> error + rat" where
  "true_div a b =
     (if b = 0 then Inl ZeroDivisionError
      else (case float_magnitude \<bar>a\<bar> \<bar>b\<bar> of
              Inl e \<Rightarrow> Inl e
            | Inr v \<Rightarrow> Inr (if (a < 0) = (b < 0) then v else - v)))"

subsection \<open>Running the algorithm\<close>

text \<open>
  The circuit that \<open>run\<close> builds before it calls the simulator (\<open>run_circuit\<close>), and the
  circuit \<open>get_circuit\<close> returns, each translated from its own function.
\<close>

definition run_circuit :: "dj \<Rightarrow> error + circuit" where
  "run_circuit self =
     (let input_register = register (nat (n_qubits self)) ''input'';
          output_register = register 1 ''output'';
          classical_register = register (nat (n_qubits self)) ''c'';
          qc = [X (output_register ! 0)];
          qc = qc @ map (\<lambda>i. H (input_register ! i)) [0..<nat (n_qubits self)];
          qc = qc @ [H (output_register ! 0)]
      in case create_oracle self qc input_register (output_register ! 0) of
           Inl e \<Rightarrow> Inl e
         | Inr qc \<Rightarrow>
             (let qc = qc @ map (\<lambda>i. H (input_register ! i)) [0..<nat (n_qubits self)]
              in Inr \<lparr>qregs = [(''input'', nat (n_qubits self)), (''output'', 1)],
                      cregs = [(''c'', nat (n_qubits self))],
                      gates = qc,
                      measured = zip input_register classical_register\<rparr>))"

definition get_circuit :: "dj \<Rightarrow> error + circuit" where
  "get_circuit self =
     (let input_register = register (nat (n_qubits self)) ''input'';
          output_register = register 1 ''output'';
          classical_register = register (nat (n_qubits self)) ''c'';
          qc = [X (output_register ! 0)];
          qc = qc @ map (\<lambda>i. H (input_register ! i)) [0..<nat (n_qubits self)];
          qc = qc @ [H (output_register ! 0)]
      in case create_oracle self qc input_register (output_register ! 0) of
           Inl e \<Rightarrow> Inl e
         | Inr qc \<Rightarrow>
             (let qc = qc @ map (\<lambda>i. H (input_register ! i)) [0..<nat (n_qubits self)]
              in Inr \<lparr>qregs = [(''input'', nat (n_qubits self)), (''output'', 1)],
                      cregs = [(''c'', nat (n_qubits self))],
                      gates = qc,
                      measured = zip input_register classical_register\<rparr>))"

text \<open>
  \<open>run\<close>: the simulator is the environment's; \<open>simulate qc shots\<close> is the
  \<open>MeasurementCounts\<close> dictionary it returns for the circuit.  \<open>interpret_counts\<close> is the
  interpretation of the counts at the end of \<open>run\<close>: the threshold \<open>self.shots / 2\<close>
  is a float, evaluated only when the all-zero key is present, and Python compares an
  integer with a float exactly.
\<close>

definition interpret_counts :: "dj \<Rightarrow> (string \<rightharpoonup> int) \<Rightarrow> error + string" where
  "interpret_counts self counts =
     (let zeros = replicate (nat (n_qubits self)) CHR ''0''
      in case counts zeros of
           None \<Rightarrow> Inr ''balanced''
         | Some c \<Rightarrow>
             (case true_div (shots self) 2 of
                Inl e \<Rightarrow> Inl e
              | Inr half \<Rightarrow> if half < of_int c then Inr ''constant'' else Inr ''balanced''))"

definition run :: "dj \<Rightarrow> (circuit \<Rightarrow> int \<Rightarrow> (string \<rightharpoonup> int)) \<Rightarrow> error + string" where
  "run self simulate =
     (case run_circuit self of
        Inl e \<Rightarrow> Inl e
      | Inr qc \<Rightarrow> interpret_counts self (simulate qc (shots self)))"

text \<open>
  A run with \<open>2^53 + 3\<close> shots on one input qubit, and a simulator that reports the
  all-zero string \<open>2^52 + 2\<close> times.
\<close>

definition many_shots :: dj where
  "many_shots = \<lparr>n_qubits = 1, oracle_type = ''constant'', constant_value = 0,
                 custom_bitstring = None, shots = 9007199254740995\<rparr>"

definition many_shots_simulate :: "circuit \<Rightarrow> int \<Rightarrow> (string \<rightharpoonup> int)" where
  "many_shots_simulate qc nshots =
     map_of [(''0'', 4503599627370498), (''1'', 4503599627370497)]"

section \<open>Shor: \<open>SHORS/shors.py\<close>\<close>

record shor =
  shor_N :: int
  shor_shots :: int
  shor_n :: nat

text \<open>
  \<open>ShorsAlgorithm.__init__\<close>: \<open>N\<close> and \<open>shots\<close> are the fields \<open>shor_N\<close> and
  \<open>shor_shots\<close>; \<open>n = len(bin(N)[2:])\<close> is the bit length of \<open>N\<close>.
\<close>

definition shor_init :: "int \<Rightarrow> int \<Rightarrow> error + shor" where
  "shor_init N nshots =
     (if N \<le> 1 then Inl (ValueError ''N must be an integer greater than 1.'')
      else if nshots \<le> 0 then Inl (ValueError ''Number of shots must be a positive integer.'')
      else Inr \<lparr>shor_N = N, shor_shots = nshots, shor_n = bit_length N\<rparr>)"

subsection \<open>The inverse quantum Fourier transform\<close>

text \<open>
  \<open>_apply_qft_inverse\<close>.  \<open>float(2**(j-k))\<close> raises \<open>OverflowError\<close> from \<open>2**1024\<close>
  on; below, the float is the power of two itself and \<open>-np.pi\<close> divided by it is exact,
  the coefficient \<open>- 1 / 2 ^ (j - k)\<close> of \<open>np.pi\<close>.  \<open>qft_phases\<close> is the inner loop
  over \<open>k\<close> for one \<open>j\<close>, \<open>qft_rotations\<close> the outer loop over \<open>j\<close>.
\<close>

fun qft_phases :: "qubit list \<Rightarrow> nat \<Rightarrow> nat list \<Rightarrow> gate list \<Rightarrow> error + gate list" where
  "qft_phases qubits j [] qc = Inr qc"
| "qft_phases qubits j (k # ks) qc =
     (if 1024 \<le> j - k then Inl OverflowError
      else qft_phases qubits j ks (qc @ [CP (- 1 / 2 ^ (j - k)) (qubits ! k) (qubits ! j)]))"

fun qft_rotations :: "qubit list \<Rightarrow> nat list \<Rightarrow> gate list \<Rightarrow> error + gate list" where
  "qft_rotations qubits [] qc = Inr qc"
| "qft_rotations qubits (j # js) qc =
     (case qft_phases qubits j [0..<j] qc of
        Inl e \<Rightarrow> Inl e
      | Inr qc' \<Rightarrow> qft_rotations qubits js (qc' @ [H (qubits ! j)]))"

definition apply_qft_inverse :: "gate list \<Rightarrow> qubit list \<Rightarrow> error + gate list" where
  "apply_qft_inverse qc qubits =
     (let len = length qubits;
          qc = qc @ map (\<lambda>i. SWAP (qubits ! i) (qubits ! (len - (i + 1)))) [0..<len div 2]
      in qft_rotations qubits [0..<len] qc)"

text \<open>
  The inverse transform as the specification words it, on \<open>m\<close> qubits: the swaps of
  qubit \<open>i\<close> with qubit \<open>m - 1 - i\<close> for \<open>i < m div 2\<close>, then for each \<open>j\<close> in order the
  rotations of angle \<open>- pi / 2 ^ (j - k)\<close> controlled by \<open>k\<close> on \<open>j\<close> for \<open>k < j\<close>
  ascending, followed by a Hadamard on \<open>j\<close>.
\<close>

definition spec_qft_inverse :: "qubit list \<Rightarrow> gate list" where
  "spec_qft_inverse qubits =
     map (\<lambda>i. SWAP (qubits ! i) (qubits ! (length qubits - 1 - i))) [0..<length qubits div 2]
     @ concat (map (\<lambda>j. map (\<lambda>k. CP (- 1 / 2 ^ (j - k)) (qubits ! k) (qubits ! j)) [0..<j]
                         @ [H (qubits ! j)])
                   [0..<length qubits])"

subsection \<open>Period finding and classical post-processing\<close>

text \<open>
  \<open>max(counts, key=counts.get)\<close> on the dictionary of counts, in its iteration order:
  the first key with the largest count; \<open>ValueError\<close> on an empty dictionary.
\<close>

fun most_frequent :: "(string \<times> int) list \<Rightarrow> error + string" where
  "most_frequent [] = Inl (ValueError ''max() arg is an empty sequence'')"
| "most_frequent ((key, v) # rest) =
     Inr (fst (foldl (\<lambda>(bk, bv) (k', v'). if bv < v' then (k', v') else (bk, bv)) (key, v) rest))"

text \<open>
  One pass of \<open>factor\<close> draws a base with \<open>np.random.randint(2, N)\<close> and, on the quantum
  path, builds the period-finding circuit and has it simulated.  The draw and the
  simulation are the environment's: an \<open>attempt\<close> holds the base drawn and the outcome
  of \<open>_quantum_period_finding\<close> up to the counts, which is an error raised while the
  circuit is built or simulated, or the dictionary of counts.
\<close>

record attempt =
  base :: int
  outcome :: "error + (string \<times> int) list"

definition quantum_period_finding :: "attempt \<Rightarrow> error + string" where
  "quantum_period_finding att =
     (case outcome att of Inl e \<Rightarrow> Inl e | Inr counts \<Rightarrow> most_frequent counts)"

text \<open>
  \<open>int(measurement, 2)\<close> on a string of binary digits, as the keys of a counts
  dictionary are.  The model covers these strings only: it gives \<open>ValueError\<close> for
  every other string, also for the signs, prefixes, underscores and blanks that Python
  accepts besides.
\<close>

definition int_base2 :: "string \<Rightarrow> error + int" where
  "int_base2 s =
     (if s \<noteq> [] \<and> list_all (\<lambda>c. c \<in> set ''01'') s
      then Inr (foldl (\<lambda>acc c. 2 * acc + (if c = CHR ''1'' then 1 else 0)) 0 s)
      else Inl (ValueError ''invalid literal for int() with base 2''))"

text \<open>
  \<open>Fraction.limit_denominator\<close> of the standard library (CPython 3.11), on the rational
  a \<open>Fraction\<close> denotes; numerator and denominator are those of the lowest terms.
  \<open>limit_loop\<close> is its \<open>while True\<close> loop, returning the variables at the \<open>break\<close>;
  \<open>n // d\<close> raises \<open>ZeroDivisionError\<close> when \<open>d\<close> is 0, and so does \<open>Fraction(p, 0)\<close>.
\<close>

function limit_loop ::
  "int \<Rightarrow> int \<Rightarrow> int \<Rightarrow> int \<Rightarrow> int \<Rightarrow> int \<Rightarrow> int \<Rightarrow> error + (int \<times> int \<times> int \<times> int \<times> int \<times> int)" where
  "limit_loop max_denominator p0 q0 p1 q1 n d =
     (if d = 0 then Inl ZeroDivisionError
      else
        (let a = n div d;
             q2 = q0 + a * q1
         in if max_denominator < q2 then Inr (p0, q0, p1, q1, n, d)
            else limit_loop max_denominator p1 q1 (p0 + a * p1) q2 d (n - a * d)))"
  by pat_completeness auto
termination
  by (relation "measure (\<lambda>(max_denominator, p0, q0, p1, q1, n, d). nat \<bar>d\<bar>)")
     (auto simp: minus_div_mult_eq_mod abs_mod_less)

declare limit_loop.simps [simp del]

definition fraction :: "int \<Rightarrow> int \<Rightarrow> error + rat" where
  "fraction numerator denominator =
     (if denominator = 0 then Inl ZeroDivisionError else Inr (Fract numerator denominator))"

definition limit_denominator :: "rat \<Rightarrow> int \<Rightarrow> error + rat" where
  "limit_denominator x max_denominator =
     (if max_denominator < 1 then Inl (ValueError ''max_denominator should be at least 1'')
      else if snd (quotient_of x) \<le> max_denominator then Inr x
      else
        (case limit_loop max_denominator 0 1 1 0 (fst (quotient_of x)) (snd (quotient_of x)) of
           Inl e \<Rightarrow> Inl e
         | Inr (p0, q0, p1, q1, n, d) \<Rightarrow>
             if q1 = 0 then Inl ZeroDivisionError
             else
               (let k = (max_denominator - q0) div q1
                in case fraction (p0 + k * p1) (q0 + k * q1) of
                     Inl e \<Rightarrow> Inl e
                   | Inr bound1 \<Rightarrow>
                       (case fraction p1 q1 of
                          Inl e \<Rightarrow> Inl e
                        | Inr bound2 \<Rightarrow>
                            if \<bar>bound2 - x\<bar> \<le> \<bar>bound1 - x\<bar> then Inr bound2
                            else Inr bound1))))"

text \<open>\<open>_classical_post_processing\<close>: the phase is a float, the period a denominator.\<close>

definition classical_post_processing :: "shor \<Rightarrow> string \<Rightarrow> error + int" where
  "classical_post_processing self measurement =
     (case int_base2 measurement of
        Inl e \<Rightarrow> Inl e
      | Inr m \<Rightarrow>
          (case true_div m (2 ^ (2 * shor_n self)) of
             Inl e \<Rightarrow> Inl e
           | Inr phase \<Rightarrow>
               (case limit_denominator phase (shor_N self) of
                  Inl e \<Rightarrow> Inl e
                | Inr fr \<Rightarrow> Inr (snd (quotient_of fr)))))"

subsection \<open>The factor loop\<close>

text \<open>
  One pass of \<open>factor\<close> after the parity test, from the draw of the base to the end:
  it returns a pair, raises, or asks for a retry (the recursive call).  The period is a
  positive denominator, so \<open>pow(a, r // 2, N)\<close> is \<open>a ^ (r div 2) mod N\<close>.
\<close>

datatype step = Retry | Return "int \<times> int" | Raise error

definition factor_pass :: "shor \<Rightarrow> attempt \<Rightarrow> step" where
  "factor_pass self att =
     (let a = base att;
          g = gcd a (shor_N self)
      in if g \<noteq> 1 then Return (g, shor_N self div g)
         else
           (case quantum_period_finding att of
              Inl e \<Rightarrow> Raise e
            | Inr measurement \<Rightarrow>
                (case classical_post_processing self measurement of
                   Inl e \<Rightarrow> Raise e
                 | Inr r \<Rightarrow>
                     if r mod 2 \<noteq> 0 then Retry
                     else
                       (let x = a ^ nat (r div 2) mod shor_N self;
                            factor1 = gcd (x + 1) (shor_N self);
                            factor2 = gcd (x - 1) (shor_N self)
                        in if factor1 * factor2 \<noteq> shor_N self then Retry
                           else Return (factor1, factor2)))))"

text \<open>
  \<open>factor\<close>: the list holds the attempts the environment supplies, one for each pass;
  a retry is the recursive call on the rest.  \<open>None\<close> is a run that is still retrying
  when the list is used up; the recursion limit of the interpreter is not modelled.
\<close>

fun factor :: "shor \<Rightarrow> attempt list \<Rightarrow> (error + int \<times> int) option" where
  "factor self atts =
     (if shor_N self mod 2 = 0 then Some (Inr (2, shor_N self div 2))
      else
        (case atts of
           [] \<Rightarrow> None
         | att # rest \<Rightarrow>
             (case factor_pass self att of
                Retry \<Rightarrow> factor self rest
              | Return pair \<Rightarrow> Some (Inr pair)
              | Raise e \<Rightarrow> Some (Inl e))))"

declare factor.simps [simp del]

definition factor_number :: "int \<Rightarrow> int \<Rightarrow> attempt list \<Rightarrow> (error + int \<times> int) option" where
  "factor_number N nshots atts =
     (case shor_init N nshots of Inl e \<Rightarrow> Some (Inl e) | Inr shor \<Rightarrow> factor shor atts)"


section \<open>Properties of the integer true division\<close>

lemma bit_length_pos: "n \<noteq> 0 \<Longrightarrow> 0 < bit_length n"
  by (subst bit_length.simps) simp

lemma bit_length_bounds: "0 < n \<Longrightarrow> 2 ^ (bit_length n - 1) \<le> n \<and> n < 2 ^ bit_length n"
proof (induction n rule: bit_length.induct)
  case (1 n)
  from "1.prems" have abs: "\<bar>n\<bar> = n" by simp
  show ?case
  proof (cases "n div 2 = 0")
    case True
    with "1.prems" have "n = 1" by presburger
    then show ?thesis by (simp add: bit_length.simps)
  next
    case False
    with "1.prems" have pos: "0 < n div 2" by presburger
    from "1.IH" pos "1.prems" abs
    have ih: "2 ^ (bit_length (n div 2) - 1) \<le> n div 2" "n div 2 < 2 ^ bit_length (n div 2)"
      by auto
    have bl: "bit_length n = Suc (bit_length (n div 2))"
      using "1.prems" by (subst bit_length.simps) simp
    from pos have "n div 2 \<noteq> 0" by simp
    from bit_length_pos [OF this] obtain k where k: "bit_length (n div 2) = Suc k"
      by (cases "bit_length (n div 2)") auto
    from ih k have "2 ^ k \<le> n div 2" "n div 2 < 2 * 2 ^ k" by auto
    then have "2 * 2 ^ k \<le> n" "n < 2 * (2 * 2 ^ k)" by presburger+
    then show ?thesis by (simp add: bl k)
  qed
qed

lemma bit_length_unique:
  assumes "2 ^ k \<le> n" "n < 2 ^ Suc k"
  shows "bit_length n = Suc k"
proof -
  have "(0::int) < 2 ^ k" by simp
  with assms(1) have pos: "0 < n" by linarith
  from bit_length_bounds [OF pos] have b: "2 ^ (bit_length n - 1) \<le> n" "n < 2 ^ bit_length n"
    by auto
  from pos have "n \<noteq> 0" by simp
  from bit_length_pos [OF this] obtain j where j: "bit_length n = Suc j"
    by (cases "bit_length n") auto
  from b j have "2 ^ j \<le> n" "n < 2 ^ Suc j" by auto
  with assms have lt: "(2::int) ^ j < 2 ^ Suc k" "(2::int) ^ k < 2 ^ Suc j" by linarith+
  have one: "(1::int) < 2" by simp
  have "j < Suc k" by (rule power_less_imp_less_exp [OF one lt(1)])
  moreover have "k < Suc j" by (rule power_less_imp_less_exp [OF one lt(2)])
  ultimately show ?thesis using j by simp
qed

lemma bit_length_pow2: "bit_length (2 ^ m) = Suc m"
  by (rule bit_length_unique) simp_all

lemma round_half_even_exact: "0 < b \<Longrightarrow> round_half_even (c * b) b = c"
  by (simp add: round_half_even_def)

lemma scale2_neg: "scale2 (a * 2 ^ j) (- int (m + j)) = of_int a / 2 ^ m"
proof (cases "m + j = 0")
  case True
  then show ?thesis by (simp add: scale2_def)
next
  case False
  then have "0 < int (m + j)" by linarith
  then have "\<not> (0 \<le> - int (m + j))" by linarith
  moreover have "nat (- (- int (m + j))) = m + j" by simp
  ultimately
  have "scale2 (a * 2 ^ j) (- int (m + j)) = Fract (a * 2 ^ j) (2 ^ (m + j))"
    unfolding scale2_def by (simp only: if_False)
  also have "\<dots> = of_int a / 2 ^ m"
    by (simp add: Fract_of_int_quotient power_add)
  finally show ?thesis .
qed

text \<open>
  A non-negative integer below \<open>2^53\<close> divided by a power of two (up to \<open>2^1022\<close>) is
  a binary64 number: the division is exact.
\<close>

lemma float_magnitude_pow2_exact:
  assumes "0 < a" "a < 2 ^ 53" "m \<le> 1022"
  shows "float_magnitude a (2 ^ m) = Inr (of_int a / 2 ^ m)"
proof -
  from assms have nz: "a \<noteq> 0" by simp
  from bit_length_pos [OF nz] obtain k where k: "bit_length a = Suc k"
    by (cases "bit_length a") auto
  from bit_length_bounds [OF assms(1)] k have lo: "2 ^ k \<le> a" and hi: "a < 2 ^ Suc k"
    by auto
  have "(2::int) ^ k < 2 ^ 53" using lo assms(2) by linarith
  then have k52: "k \<le> 52"
    using power_less_imp_less_exp [of "2::int" k 53] by simp
  define e0 where "e0 = int k - int m"
  have e0: "int (bit_length a) - int (bit_length ((2::int) ^ m)) = e0"
    by (simp add: k bit_length_pow2 e0_def)
  have cond: "(2::int) ^ m * 2 ^ nat e0 \<le> a * 2 ^ nat (- e0)"
  proof (cases "m \<le> k")
    case True
    then have "nat e0 = k - m" "nat (- e0) = 0" by (simp_all add: e0_def)
    moreover have "(2::int) ^ m * 2 ^ (k - m) = 2 ^ k"
      using True by (simp flip: power_add)
    ultimately show ?thesis using lo by simp
  next
    case False
    then have n: "nat e0 = 0" "nat (- e0) = m - k" by (simp_all add: e0_def)
    have "(2::int) ^ m = 2 ^ k * 2 ^ (m - k)"
      using False by (simp flip: power_add)
    also have "\<dots> \<le> a * 2 ^ (m - k)"
      using lo by (simp add: mult_right_mono)
    finally show ?thesis using n by simp
  qed
  define j where "j = 52 - k"
  have q: "max e0 (- 1022) - 52 = - int (m + j)"
    using assms(3) k52 by (simp add: e0_def j_def)
  have nq: "nat (- (- int (m + j))) = m + j" "nat (- int (m + j)) = 0" by simp_all
  have t: "round_half_even (a * 2 ^ (m + j)) (2 ^ m) = a * 2 ^ j"
  proof -
    have eq: "a * 2 ^ (m + j) = (a * 2 ^ j) * 2 ^ m" by (simp add: power_add)
    show ?thesis unfolding eq by (rule round_half_even_exact) simp
  qed
  have bound: "\<not> (2 ^ 1024 \<le> (of_int a :: rat) / 2 ^ m)"
  proof -
    have "(of_int a :: rat) / 2 ^ m \<le> of_int a"
      using assms(1) by (simp add: divide_le_eq_1 field_simps)
    also have "\<dots> < 2 ^ 53"
      using assms(2) by (metis of_int_less_numeral_power_cancel_iff)
    also have "\<dots> < (2::rat) ^ 1024" by simp
    finally show ?thesis by simp
  qed
  have "float_magnitude a (2 ^ m) =
          (if 2 ^ 1024 \<le> scale2 (a * 2 ^ j) (- int (m + j)) then Inl OverflowError
           else Inr (scale2 (a * 2 ^ j) (- int (m + j))))"
    unfolding float_magnitude_def Let_def e0
    by (simp only: nz cond if_True if_False q nq t power_0 mult_1_right)
  then show ?thesis
    using bound by (simp only: scale2_neg if_False)
qed

lemma true_div_pow2_exact:
  assumes "0 \<le> a" "a < 2 ^ 53" "m \<le> 1022"
  shows "true_div a (2 ^ m) = Inr (of_int a / 2 ^ m)"
proof (cases "a = 0")
  case True
  then show ?thesis by (simp add: true_div_def float_magnitude_def)
next
  case False
  with assms have "0 < a" by simp
  from float_magnitude_pow2_exact [OF this assms(2,3)] assms(1) show ?thesis
    by (simp add: true_div_def)
qed

lemma true_div_2_exact: "0 \<le> a \<Longrightarrow> a < 2 ^ 53 \<Longrightarrow> true_div a 2 = Inr (of_int a / 2)"
  using true_div_pow2_exact [of a 1] by simp

text \<open>
  Halving a positive integer below \<open>2^53 + 3\<close>: the float is the exact half, or at
  \<open>2^53 + 1\<close> the half rounded down, which the same integers exceed.
\<close>

lemma true_div_2_threshold:
  assumes "0 < s" "s < 2 ^ 53 + 3"
  shows "\<exists>half. true_div s 2 = Inr half \<and>
           (\<forall>c::int. half < of_int c \<longleftrightarrow> (of_int s :: rat) / 2 < of_int c)"
proof (cases "s < 2 ^ 53")
  case True
  with assms(1) have "true_div s 2 = Inr (of_int s / 2)"
    by (intro true_div_2_exact) simp_all
  then have "true_div s 2 = Inr (of_int s / 2) \<and>
      (\<forall>c::int. (of_int s :: rat) / 2 < of_int c \<longleftrightarrow> (of_int s :: rat) / 2 < of_int c)"
    by (simp only: simp_thms)
  then show ?thesis by (rule exI)
next
  case False
  with assms(2) consider "s = 9007199254740992" | "s = 9007199254740993" | "s = 9007199254740994"
    by (simp only: power_numeral) fastforce
  then show ?thesis
  proof cases
    case 1
    have "true_div 9007199254740992 2 = Inr 4503599627370496"
      by (simp add: true_div_def float_magnitude_def bit_length.simps round_half_even_def
          scale2_def Let_def)
    with 1 show ?thesis by simp
  next
    case 2
    have t: "true_div 9007199254740993 2 = Inr 4503599627370496"
      by (simp add: true_div_def float_magnitude_def bit_length.simps round_half_even_def
          scale2_def Let_def)
    have "(4503599627370496 :: rat) < of_int c \<longleftrightarrow> (9007199254740993 :: rat) / 2 < of_int c" for c :: int
    proof -
      have "(4503599627370496 :: rat) < of_int c \<longleftrightarrow> 4503599627370496 < c"
        by (metis of_int_numeral_less_iff)
      also have "\<dots> \<longleftrightarrow> 9007199254740993 < 2 * c" by linarith
      also have "\<dots> \<longleftrightarrow> (9007199254740993 :: rat) < of_int (2 * c)"
        by (metis of_int_numeral_less_iff)
      also have "\<dots> \<longleftrightarrow> (9007199254740993 :: rat) / 2 < of_int c" by (simp add: field_simps)
      finally show ?thesis .
    qed
    with 2 t show ?thesis by simp
  next
    case 3
    have "true_div 9007199254740994 2 = Inr 4503599627370497"
      by (simp add: true_div_def float_magnitude_def bit_length.simps round_half_even_def
          scale2_def Let_def)
    with 3 show ?thesis by simp
  qed
qed


section \<open>Deutsch-Jozsa: construction and validation\<close>

text \<open>The number of decimal digits against the powers of ten.\<close>

lemma decimal_length_le: "0 < k \<Longrightarrow> n < 10 ^ k \<Longrightarrow> length (decimal n) \<le> k"
proof (induction k arbitrary: n)
  case 0
  then show ?case by simp
next
  case (Suc k)
  show ?case
  proof (cases "n < 10")
    case True
    then show ?thesis by (subst decimal.simps) simp
  next
    case False
    then have k: "0 < k" using Suc.prems by (cases k) auto
    from Suc.prems have "n div 10 < 10 ^ k" by (simp add: less_mult_imp_div_less mult.commute)
    from Suc.IH [OF k this] False show ?thesis by (subst decimal.simps) simp
  qed
qed

lemma decimal_length_gt: "10 ^ k \<le> n \<Longrightarrow> k < length (decimal n)"
proof (induction k arbitrary: n)
  case 0
  then show ?case by (subst decimal.simps) simp
next
  case (Suc k)
  then have big: "\<not> n < 10"
    by (metis power_Suc le_trans not_less one_le_numeral one_le_power mult.right_neutral
        mult_le_mono2)
  from Suc.prems have "10 ^ k \<le> n div 10"
    by (simp add: less_eq_div_iff_mult_less_eq mult.commute)
  from Suc.IH [OF this] big show ?case by (subst decimal.simps) simp
qed

text \<open>\<open>2^14285\<close> has more than 4300 digits: \<open>10^59 \<le> 2^196\<close> and \<open>10^52 \<le> 2^173\<close>.\<close>

lemma ten_power_4300: "(10::nat) ^ 4300 \<le> 2 ^ 14285"
proof -
  have a: "(10::nat) ^ 59 \<le> 2 ^ 196" and b: "(10::nat) ^ 52 \<le> 2 ^ 173" by simp_all
  have "(10::nat) ^ (59 * 72 + 52) = (10 ^ 59) ^ 72 * 10 ^ 52"
    by (simp only: power_add power_mult)
  also have "\<dots> \<le> (2 ^ 196) ^ 72 * 2 ^ 173"
    by (intro mult_mono power_mono a b) simp_all
  also have "\<dots> = 2 ^ (196 * 72 + 173)"
    by (simp only: power_add power_mult)
  finally have "(10::nat) ^ (59 * 72 + 52) \<le> 2 ^ (196 * 72 + 173)" .
  moreover have "(59::nat) * 72 + 52 = 4300" "(196::nat) * 72 + 173 = 14285" by simp_all
  ultimately show ?thesis by (simp only:)
qed

lemma str_int_nat:
  "str_int (int n) =
     (if 4300 < length (decimal n) then Inl (ValueError digit_limit_message)
      else Inr (decimal n))"
  by (simp add: str_int_def Let_def)

text \<open>
  Claim C8.  For every \<open>n \<ge> 1\<close>, constructing the algorithm object for a custom oracle
  whose supplied bitstring has a length other than \<open>2^n\<close>, or has a character other than
  \<open>0\<close> and \<open>1\<close>, raises \<open>ValueError\<close>, whatever the shot count is: the character error
  when only the characters are wrong, and when the length is wrong the length error, or
  the error of \<open>str\<close> when \<open>n\<close> or \<open>2^n\<close> has more than 4300 digits and the length
  message cannot be printed.  No object exists then, so no gate is emitted and no
  circuit is built.
\<close>

theorem init_rejects_malformed_custom:
  "1 \<le> n \<Longrightarrow> cval = 0 \<or> cval = 1 \<Longrightarrow>
   int (length bs) \<noteq> 2 ^ nat n \<or> \<not> set bs \<subseteq> {CHR ''0'', CHR ''1''} \<Longrightarrow>
   init shuffle n ''custom'' cval (Some bs) nshots =
     Inl (ValueError
           (if int (length bs) \<noteq> 2 ^ nat n
            then (if 4300 < length (decimal (nat n)) \<or> 4300 < length (decimal (2 ^ nat n))
                  then digit_limit_message
                  else ''Custom bitstring length must be 2^'' @ decimal (nat n)
                       @ '' = '' @ decimal (2 ^ nat n))
            else ''Custom bitstring must contain only 0 and 1''))"
proof -
  assume n: "1 \<le> n" and cval: "cval = 0 \<or> cval = 1"
    and bad: "int (length bs) \<noteq> 2 ^ nat n \<or> \<not> set bs \<subseteq> {CHR ''0'', CHR ''1''}"
  from n have "str_int n = str_int (int (nat n))" by simp
  then have exponent: "str_int n =
      (if 4300 < length (decimal (nat n)) then Inl (ValueError digit_limit_message)
       else Inr (decimal (nat n)))"
    by (simp only: str_int_nat)
  have "str_int (2 ^ nat n) = str_int (int (2 ^ nat n))" by simp
  then have len: "str_int (2 ^ nat n) =
      (if 4300 < length (decimal (2 ^ nat n)) then Inl (ValueError digit_limit_message)
       else Inr (decimal (2 ^ nat n)))"
    by (simp only: str_int_nat)
  have message: "length_message n =
      (if 4300 < length (decimal (nat n)) \<or> 4300 < length (decimal (2 ^ nat n))
       then Inl (ValueError digit_limit_message)
       else Inr (''Custom bitstring length must be 2^'' @ decimal (nat n)
                 @ '' = '' @ decimal (2 ^ nat n)))"
    unfolding length_message_def exponent len by simp
  from n cval bad show ?thesis
    by (auto simp: init_def valid_oracle_types_def list_all_iff message)
qed

theorem init_rejects_malformed_custom_witness:
  "init (\<lambda>s. s) 1 ''custom'' 0 (Some ''0x'') 1024 =
     Inl (ValueError ''Custom bitstring must contain only 0 and 1'') \<and>
   init (\<lambda>s. s) 1 ''custom'' 0 (Some ''011'') 1024 =
     Inl (ValueError ''Custom bitstring length must be 2^1 = 2'') \<and>
   init (\<lambda>s. s) 14285 ''custom'' 0 (Some ''0'') 1024 =
     Inl (ValueError digit_limit_message)"
proof -
  have "init (\<lambda>s. s) 1 ''custom'' 0 (Some ''0x'') 1024 =
     Inl (ValueError ''Custom bitstring must contain only 0 and 1'')"
    using init_rejects_malformed_custom [of 1 0 "''0x''" "\<lambda>s. s" 1024] by simp
  moreover have "init (\<lambda>s. s) 1 ''custom'' 0 (Some ''011'') 1024 =
     Inl (ValueError ''Custom bitstring length must be 2^1 = 2'')"
    using init_rejects_malformed_custom [of 1 0 "''011''" "\<lambda>s. s" 1024]
    by (simp add: decimal.simps)
  moreover have "init (\<lambda>s. s) 14285 ''custom'' 0 (Some ''0'') 1024 =
     Inl (ValueError digit_limit_message)"
  proof -
    have h1: "(1::int) \<le> 14285" and h2: "(0::int) = 0 \<or> (0::int) = 1" by simp_all
    have "int (length ''0'') \<noteq> 2 ^ nat 14285" by simp
    then have h3: "int (length ''0'') \<noteq> 2 ^ nat 14285
        \<or> \<not> set ''0'' \<subseteq> {CHR ''0'', CHR ''1''}" ..
    have "(10::nat) ^ 4300 \<le> 2 ^ 14285" by (rule ten_power_4300)
    then have "4300 < length (decimal (2 ^ 14285))" by (rule decimal_length_gt)
    moreover have "nat 14285 = 14285" by simp
    ultimately have limit: "4300 < length (decimal (nat 14285))
        \<or> 4300 < length (decimal (2 ^ nat 14285))"
      by (simp only: simp_thms)
    from init_rejects_malformed_custom [OF h1 h2 h3, of "\<lambda>s. s" 1024]
    show ?thesis
      by (simp only: \<open>int (length ''0'') \<noteq> 2 ^ nat 14285\<close> limit if_True simp_thms)
  qed
  ultimately show ?thesis by (simp only: simp_thms)
qed

lemma count_char_split:
  "set bs \<subseteq> {CHR ''0'', CHR ''1''} \<Longrightarrow>
   count_char CHR ''0'' bs + count_char CHR ''1'' bs = length bs"
  by (induction bs) (auto simp: count_char_def)

text \<open>
  Claim C5.  \<open>validate_oracle\<close> returns \<open>constant\<close> for a constant oracle and
  \<open>balanced\<close> for a balanced one; for a custom bitstring of length \<open>2^n\<close> over \<open>0\<close> and
  \<open>1\<close> (\<open>n \<ge> 1\<close>) it returns \<open>constant\<close> when the number of \<open>1\<close>s is 0 or \<open>2^n\<close>,
  \<open>balanced\<close> when it is \<open>2^(n-1)\<close>, and otherwise the \<open>neither\<close> text with the number
  of \<open>1\<close>s and the number of \<open>0\<close>s.  The text is printed for every string of fewer than
  \<open>2^63\<close> characters, which every Python string is; the third part gives the result
  for the lists beyond as well, where a count of more than 4300 digits is not printed.
\<close>

theorem validate_oracle_classifies:
  "(oracle_type self = ''constant'' \<longrightarrow> validate_oracle self = Inr (Some ''constant'')) \<and>
   (oracle_type self = ''balanced'' \<longrightarrow> validate_oracle self = Inr (Some ''balanced'')) \<and>
   (oracle_type self = ''custom'' \<and> custom_bitstring self = Some bs \<and> 1 \<le> n_qubits self \<and>
    length bs = 2 ^ nat (n_qubits self) \<and> set bs \<subseteq> {CHR ''0'', CHR ''1''} \<longrightarrow>
      validate_oracle self =
        (if count_char CHR ''1'' bs = 0
            \<or> count_char CHR ''1'' bs = 2 ^ nat (n_qubits self) then Inr (Some ''constant'')
         else if count_char CHR ''1'' bs = 2 ^ (nat (n_qubits self) - 1)
           then Inr (Some ''balanced'')
         else if 4300 < length (decimal (count_char CHR ''1'' bs))
                 \<or> 4300 < length (decimal (count_char CHR ''0'' bs))
           then Inl (ValueError digit_limit_message)
         else Inr (Some (''neither (ones: '' @ decimal (count_char CHR ''1'' bs)
                         @ '', zeros: '' @ decimal (count_char CHR ''0'' bs) @ '')'')))) \<and>
   (oracle_type self = ''custom'' \<and> custom_bitstring self = Some bs \<and> 1 \<le> n_qubits self \<and>
    length bs = 2 ^ nat (n_qubits self) \<and> set bs \<subseteq> {CHR ''0'', CHR ''1''} \<and>
    length bs < 2 ^ 63 \<longrightarrow>
      validate_oracle self =
        Inr (Some (if count_char CHR ''1'' bs = 0
                      \<or> count_char CHR ''1'' bs = 2 ^ nat (n_qubits self) then ''constant''
                   else if count_char CHR ''1'' bs = 2 ^ (nat (n_qubits self) - 1) then ''balanced''
                   else ''neither (ones: '' @ decimal (count_char CHR ''1'' bs)
                        @ '', zeros: '' @ decimal (count_char CHR ''0'' bs) @ '')'')))"
proof -
  have general: "validate_oracle self =
        (if count_char CHR ''1'' bs = 0
            \<or> count_char CHR ''1'' bs = 2 ^ nat (n_qubits self) then Inr (Some ''constant'')
         else if count_char CHR ''1'' bs = 2 ^ (nat (n_qubits self) - 1)
           then Inr (Some ''balanced'')
         else if 4300 < length (decimal (count_char CHR ''1'' bs))
                 \<or> 4300 < length (decimal (count_char CHR ''0'' bs))
           then Inl (ValueError digit_limit_message)
         else Inr (Some (''neither (ones: '' @ decimal (count_char CHR ''1'' bs)
                         @ '', zeros: '' @ decimal (count_char CHR ''0'' bs) @ '')'')))"
    if a: "oracle_type self = ''custom'' \<and> custom_bitstring self = Some bs \<and>
      1 \<le> n_qubits self \<and> length bs = 2 ^ nat (n_qubits self) \<and>
      set bs \<subseteq> {CHR ''0'', CHR ''1''}"
  proof -
    define n where "n = nat (n_qubits self)"
    from a have "1 \<le> n_qubits self" "length bs = 2 ^ nat (n_qubits self)" by simp_all
    then have n: "1 \<le> n" "length bs = 2 ^ n" unfolding n_def by linarith+
    then have half: "length bs div 2 = 2 ^ (n - 1)"
      by (cases n) auto
    from a have zeros:
      "int (length bs) - int (count_char CHR ''1'' bs) = int (count_char CHR ''0'' bs)"
      using count_char_split [of bs] by linarith
    have message: "neither_message (count_char CHR ''1'' bs) (length bs) =
        (if 4300 < length (decimal (count_char CHR ''1'' bs))
            \<or> 4300 < length (decimal (count_char CHR ''0'' bs))
         then Inl (ValueError digit_limit_message)
         else Inr (''neither (ones: '' @ decimal (count_char CHR ''1'' bs)
                   @ '', zeros: '' @ decimal (count_char CHR ''0'' bs) @ '')''))"
      unfolding neither_message_def zeros str_int_nat by simp
    from a have custom: "oracle_type self = ''custom''" "custom_bitstring self = Some bs"
      by simp_all
    have "validate_oracle self =
        (if count_char CHR ''1'' bs = 0 \<or> count_char CHR ''1'' bs = length bs
           then Inr (Some ''constant'')
         else if count_char CHR ''1'' bs = length bs div 2 then Inr (Some ''balanced'')
         else (case neither_message (count_char CHR ''1'' bs) (length bs) of
                 Inl e \<Rightarrow> Inl e
               | Inr report \<Rightarrow> Inr (Some report)))"
      using custom by (simp add: validate_oracle_def Let_def)
    also have "\<dots> =
        (if count_char CHR ''1'' bs = 0 \<or> count_char CHR ''1'' bs = 2 ^ n
           then Inr (Some ''constant'')
         else if count_char CHR ''1'' bs = 2 ^ (n - 1) then Inr (Some ''balanced'')
         else if 4300 < length (decimal (count_char CHR ''1'' bs))
                 \<or> 4300 < length (decimal (count_char CHR ''0'' bs))
           then Inl (ValueError digit_limit_message)
         else Inr (Some (''neither (ones: '' @ decimal (count_char CHR ''1'' bs)
                         @ '', zeros: '' @ decimal (count_char CHR ''0'' bs) @ '')'')))"
      unfolding message half by (simp add: n(2))
    finally show ?thesis unfolding n_def .
  qed
  have printed: "\<not> (4300 < length (decimal (count_char CHR ''1'' bs))
            \<or> 4300 < length (decimal (count_char CHR ''0'' bs)))"
    if "set bs \<subseteq> {CHR ''0'', CHR ''1''}" "length bs < 2 ^ 63"
  proof -
    have "(2::nat) ^ 63 < 10 ^ 19" by simp
    with that(2) have "length bs < 10 ^ 19" by linarith
    with count_char_split [OF that(1)]
    have "count_char CHR ''1'' bs < 10 ^ 19" "count_char CHR ''0'' bs < 10 ^ 19"
      by linarith+
    then have "length (decimal (count_char CHR ''1'' bs)) \<le> 19"
      "length (decimal (count_char CHR ''0'' bs)) \<le> 19"
      by (simp_all add: decimal_length_le)
    then show ?thesis by linarith
  qed
  show ?thesis
  proof (intro conjI impI)
    assume "oracle_type self = ''constant''"
    then show "validate_oracle self = Inr (Some ''constant'')"
      by (simp add: validate_oracle_def)
  next
    assume "oracle_type self = ''balanced''"
    then show "validate_oracle self = Inr (Some ''balanced'')"
      by (simp add: validate_oracle_def)
  next
    assume "oracle_type self = ''custom'' \<and> custom_bitstring self = Some bs \<and>
      1 \<le> n_qubits self \<and> length bs = 2 ^ nat (n_qubits self) \<and>
      set bs \<subseteq> {CHR ''0'', CHR ''1''}"
    then show "validate_oracle self =
        (if count_char CHR ''1'' bs = 0
            \<or> count_char CHR ''1'' bs = 2 ^ nat (n_qubits self) then Inr (Some ''constant'')
         else if count_char CHR ''1'' bs = 2 ^ (nat (n_qubits self) - 1)
           then Inr (Some ''balanced'')
         else if 4300 < length (decimal (count_char CHR ''1'' bs))
                 \<or> 4300 < length (decimal (count_char CHR ''0'' bs))
           then Inl (ValueError digit_limit_message)
         else Inr (Some (''neither (ones: '' @ decimal (count_char CHR ''1'' bs)
                         @ '', zeros: '' @ decimal (count_char CHR ''0'' bs) @ '')'')))"
      by (rule general)
  next
    assume a: "oracle_type self = ''custom'' \<and> custom_bitstring self = Some bs \<and>
      1 \<le> n_qubits self \<and> length bs = 2 ^ nat (n_qubits self) \<and>
      set bs \<subseteq> {CHR ''0'', CHR ''1''} \<and> length bs < 2 ^ 63"
    then have "set bs \<subseteq> {CHR ''0'', CHR ''1''}" "length bs < 2 ^ 63" by simp_all
    from printed [OF this] general a
    show "validate_oracle self =
        Inr (Some (if count_char CHR ''1'' bs = 0
                      \<or> count_char CHR ''1'' bs = 2 ^ nat (n_qubits self) then ''constant''
                   else if count_char CHR ''1'' bs = 2 ^ (nat (n_qubits self) - 1) then ''balanced''
                   else ''neither (ones: '' @ decimal (count_char CHR ''1'' bs)
                        @ '', zeros: '' @ decimal (count_char CHR ''0'' bs) @ '')''))"
      by simp
  qed
qed

theorem validate_oracle_classifies_witness:
  "validate_oracle \<lparr>n_qubits = 2, oracle_type = ''custom'', constant_value = 0,
        custom_bitstring = Some ''0111'', shots = 1024\<rparr> =
     Inr (Some ''neither (ones: 3, zeros: 1)'')"
proof -
  have digits: "decimal 3 = ''3''" "decimal (Suc 0) = ''1''"
    by (simp_all add: decimal.simps)
  have counts: "count_char CHR ''1'' ''0111'' = 3" "count_char CHR ''0'' ''0111'' = 1"
    by (simp_all add: count_char_def)
  from validate_oracle_classifies [of "\<lparr>n_qubits = 2, oracle_type = ''custom'',
        constant_value = 0, custom_bitstring = Some ''0111'', shots = 1024\<rparr>" "''0111''"]
  show ?thesis by (simp add: counts digits)
qed

section \<open>Deutsch-Jozsa: the custom oracle\<close>

lemma format_binary_step:
  assumes "0 < n"
  shows "format_binary i (Suc n) =
           format_binary (i div 2) n @ [if i mod 2 = 0 then CHR ''0'' else CHR ''1'']"
proof (cases "i < 2")
  case True
  then have "i div 2 = 0" by simp
  moreover have "bin_digits 0 = ''0''" by (simp add: bin_digits.simps)
  moreover have "bin_digits i = [if i mod 2 = 0 then CHR ''0'' else CHR ''1'']"
    using True by (subst bin_digits.simps) auto
  moreover have "replicate (n - 1) CHR ''0'' @ ''0'' = replicate n CHR ''0''"
    using assms by (cases n) (simp_all add: replicate_append_same)
  ultimately show ?thesis
    by (simp add: format_binary_def)
next
  case False
  then have "bin_digits i = bin_digits (i div 2) @ [if i mod 2 = 0 then CHR ''0'' else CHR ''1'']"
    by (subst bin_digits.simps) simp
  then show ?thesis
    by (simp add: format_binary_def Let_def)
qed

text \<open>The \<open>j\<close>-th character of the formatted index is the bit \<open>n - 1 - j\<close> of the index.\<close>

lemma format_binary_bits:
  "0 < n \<Longrightarrow> i < 2 ^ n \<Longrightarrow>
   format_binary i n = map (\<lambda>j. if bit i (n - 1 - j) then CHR ''1'' else CHR ''0'') [0..<n]"
proof (induction n arbitrary: i)
  case 0
  then show ?case by simp
next
  case (Suc n)
  show ?case
  proof (cases "n = 0")
    case True
    with Suc.prems have "i < 2" by simp
    then have "bin_digits i = [if i = 0 then CHR ''0'' else CHR ''1'']"
      by (subst bin_digits.simps) simp
    moreover have "bit i 0 \<longleftrightarrow> i \<noteq> 0"
      using \<open>i < 2\<close> by (auto simp: bit_0 elim: oddE)
    ultimately show ?thesis using True by (simp add: format_binary_def)
  next
    case False
    then have pos: "0 < n" by simp
    from Suc.prems have "i div 2 < 2 ^ n" by auto
    from Suc.IH [OF pos this]
    have ih: "format_binary (i div 2) n =
                map (\<lambda>j. if bit (i div 2) (n - 1 - j) then CHR ''1'' else CHR ''0'') [0..<n]" .
    have "map (\<lambda>j. if bit i (Suc n - 1 - j) then CHR ''1'' else CHR ''0'') [0..<n] =
          map (\<lambda>j. if bit (i div 2) (n - 1 - j) then CHR ''1'' else CHR ''0'') [0..<n]"
    proof (rule map_cong [OF refl])
      fix j assume "j \<in> set [0..<n]"
      then have "Suc n - 1 - j = Suc (n - 1 - j)" by auto
      then show "(if bit i (Suc n - 1 - j) then CHR ''1'' else CHR ''0'') =
                 (if bit (i div 2) (n - 1 - j) then CHR ''1'' else CHR ''0'')"
        by (simp add: bit_Suc)
    qed
    moreover have "(if bit i 0 then CHR ''1'' else CHR ''0'') =
                   (if i mod 2 = 0 then CHR ''0'' else CHR ''1'')"
      by (auto simp: bit_0 even_iff_mod_2_eq_zero)
    ultimately show ?thesis
      using format_binary_step [OF pos, of i] ih by simp
  qed
qed

lemma custom_flips_spec:
  assumes "i < 2 ^ length qubits"
  shows "custom_flips qubits (format_binary i (length qubits)) = spec_flips qubits i"
proof (cases "length qubits = 0")
  case True
  then show ?thesis by (simp add: custom_flips_def spec_flips_def)
next
  case False
  then have pos: "0 < length qubits" by simp
  have "filter (\<lambda>j. format_binary i (length qubits) ! j = CHR ''0'') [0..<length qubits] =
        filter (\<lambda>j. \<not> bit i (length qubits - 1 - j)) [0..<length qubits]"
    by (rule filter_cong [OF refl]) (simp add: format_binary_bits [OF pos assms])
  then show ?thesis by (simp add: custom_flips_def spec_flips_def)
qed

lemma custom_body_spec:
  assumes "i < 2 ^ length qubits"
  shows "custom_body qubits target_qubit i =
           spec_flips qubits i
           @ [if length qubits = 1 then CX (qubits ! 0) target_qubit else MCX qubits target_qubit]
           @ spec_flips qubits i"
  by (simp add: custom_body_def Let_def custom_flips_spec [OF assms])

lemma custom_loop_concat:
  "\<forall>i \<in> set idxs. i < length bs \<Longrightarrow>
   custom_loop bs qubits target_qubit idxs qc =
     Inr (qc @ concat (map (\<lambda>i. if bs ! i = CHR ''1''
                                 then custom_body qubits target_qubit i else []) idxs))"
  by (induction idxs arbitrary: qc) auto

text \<open>
  Claim C4.  For a custom bitstring of length \<open>2^n\<close> on \<open>n\<close> input qubits, the oracle
  synthesizer appends to the circuit exactly the gates of \<open>spec_custom_oracle\<close>: for each
  index \<open>i\<close> in ascending order whose character is \<open>1\<close> (and nothing for the others), the
  bit-flips on the input qubits whose bit of \<open>i\<close> is 0, one multi-controlled bit-flip from
  all input qubits onto the output qubit (a controlled bit-flip when \<open>n = 1\<close>), and the
  same bit-flips again.
\<close>

theorem create_oracle_custom:
  assumes "oracle_type self = ''custom''" "custom_bitstring self = Some bs"
    and "length bs = 2 ^ length qubits"
  shows "create_oracle self qc qubits target_qubit =
           Inr (qc @ spec_custom_oracle bs qubits target_qubit)"
proof -
  have eq: "map (\<lambda>i. if bs ! i = CHR ''1'' then custom_body qubits target_qubit i else [])
              [0..<2 ^ length qubits] =
        map (\<lambda>i. if bs ! i = CHR ''1''
                       then spec_flips qubits i
                            @ [if length qubits = 1 then CX (qubits ! 0) target_qubit
                               else MCX qubits target_qubit]
                            @ spec_flips qubits i
                       else []) [0..<2 ^ length qubits]"
    by (rule map_cong [OF refl]) (simp add: custom_body_spec)
  have "\<forall>i \<in> set [0..<2 ^ length qubits]. i < length bs"
    using assms(3) by simp
  from custom_loop_concat [OF this, of qubits target_qubit qc]
  have "custom_loop bs qubits target_qubit [0..<2 ^ length qubits] qc =
          Inr (qc @ spec_custom_oracle bs qubits target_qubit)"
    unfolding spec_custom_oracle_def eq .
  then show ?thesis
    using assms(1,2) by (simp add: create_oracle_def)
qed

theorem create_oracle_custom_witness:
  "create_oracle \<lparr>n_qubits = 2, oracle_type = ''custom'', constant_value = 0,
        custom_bitstring = Some ''0110'', shots = 1024\<rparr> []
        [Qubit ''input'' 0, Qubit ''input'' 1] (Qubit ''output'' 0) =
     Inr [X (Qubit ''input'' 0),
          MCX [Qubit ''input'' 0, Qubit ''input'' 1] (Qubit ''output'' 0),
          X (Qubit ''input'' 0),
          X (Qubit ''input'' 1),
          MCX [Qubit ''input'' 0, Qubit ''input'' 1] (Qubit ''output'' 0),
          X (Qubit ''input'' 1)]"
  using create_oracle_custom [of "\<lparr>n_qubits = 2, oracle_type = ''custom'', constant_value = 0,
        custom_bitstring = Some ''0110'', shots = 1024\<rparr>" "''0110''"
        "[Qubit ''input'' 0, Qubit ''input'' 1]" "[]" "Qubit ''output'' 0"]
  by (simp add: spec_custom_oracle_def spec_flips_def upt_rec numeral_2_eq_2 bit_Suc bit_0)

section \<open>Deutsch-Jozsa: running and classifying\<close>

text \<open>
  Claim C9.  The circuit that \<open>run\<close> builds and hands to the simulator is the circuit
  that \<open>get_circuit\<close> returns: the same registers, gates and measurement (and the same
  error when the construction raises).
\<close>

theorem run_circuit_get_circuit:
  "run_circuit self = get_circuit self \<and>
   run self simulate =
     (case get_circuit self of
        Inl e \<Rightarrow> Inl e
      | Inr qc \<Rightarrow> interpret_counts self (simulate qc (shots self)))"
  by (simp add: run_def run_circuit_def get_circuit_def)

text \<open>
  Claim C3, as stated, at \<open>2^53 + 3\<close> shots: the all-zero string is counted
  \<open>2^52 + 2\<close> times, more than half of the shots, and the run is classified \<open>balanced\<close>.
  The float \<open>shots / 2\<close> is \<open>2^52 + 2\<close>.
\<close>

theorem run_threshold_counterexample:
  "run many_shots many_shots_simulate = Inr ''balanced'' \<and>
   many_shots_simulate (projr (run_circuit many_shots)) (shots many_shots) ''0''
     = Some 4503599627370498 \<and>
   (of_int (shots many_shots) :: rat) / 2 < of_int 4503599627370498"
  by (simp add: run_def run_circuit_def many_shots_def many_shots_simulate_def
      interpret_counts_def create_oracle_def register_def
      true_div_def float_magnitude_def bit_length.simps round_half_even_def scale2_def Let_def)

text \<open>
  Claim C3, amended.  For a positive shot count below \<open>2^53 + 3\<close>, once the circuit is
  built the run returns \<open>constant\<close> exactly when the simulator's count of the all-zero
  \<open>n\<close>-bit string strictly exceeds \<open>shots / 2\<close>, and \<open>balanced\<close> in every other case,
  the absent key included.
\<close>

theorem run_classification:
  assumes "run_circuit self = Inr qc" "0 < shots self" "shots self < 2 ^ 53 + 3"
  shows "run self simulate =
           Inr (if \<exists>c. simulate qc (shots self) (replicate (nat (n_qubits self)) CHR ''0'') = Some c
                       \<and> (of_int (shots self) :: rat) / 2 < of_int c
                then ''constant'' else ''balanced'')"
proof -
  from true_div_2_threshold [OF assms(2,3)] obtain half
    where "true_div (shots self) 2 = Inr half"
      and "\<And>c::int. half < of_int c \<longleftrightarrow> (of_int (shots self) :: rat) / 2 < of_int c"
    by blast
  then show ?thesis
    using assms(1) by (auto simp: run_def interpret_counts_def split: option.splits)
qed

theorem run_classification_witness:
  "run \<lparr>n_qubits = 1, oracle_type = ''balanced'', constant_value = 0,
        custom_bitstring = None, shots = 1024\<rparr> (\<lambda>qc nshots. map_of [(''0'', 513), (''1'', 511)])
     = Inr ''constant'' \<and>
   run \<lparr>n_qubits = 1, oracle_type = ''balanced'', constant_value = 0,
        custom_bitstring = None, shots = 1024\<rparr> (\<lambda>qc nshots. map_of [(''0'', 512), (''1'', 512)])
     = Inr ''balanced'' \<and>
   run \<lparr>n_qubits = 1, oracle_type = ''balanced'', constant_value = 0,
        custom_bitstring = None, shots = 1024\<rparr> (\<lambda>qc nshots. map_of [(''1'', 1024)])
     = Inr ''balanced''"
  using
    run_classification [of "\<lparr>n_qubits = 1, oracle_type = ''balanced'', constant_value = 0,
        custom_bitstring = None, shots = 1024\<rparr>"
      "projr (run_circuit \<lparr>n_qubits = 1, oracle_type = ''balanced'', constant_value = 0,
        custom_bitstring = None, shots = 1024\<rparr>)"
      "\<lambda>qc nshots. map_of [(''0'', 513), (''1'', 511)]"]
    run_classification [of "\<lparr>n_qubits = 1, oracle_type = ''balanced'', constant_value = 0,
        custom_bitstring = None, shots = 1024\<rparr>"
      "projr (run_circuit \<lparr>n_qubits = 1, oracle_type = ''balanced'', constant_value = 0,
        custom_bitstring = None, shots = 1024\<rparr>)"
      "\<lambda>qc nshots. map_of [(''0'', 512), (''1'', 512)]"]
    run_classification [of "\<lparr>n_qubits = 1, oracle_type = ''balanced'', constant_value = 0,
        custom_bitstring = None, shots = 1024\<rparr>"
      "projr (run_circuit \<lparr>n_qubits = 1, oracle_type = ''balanced'', constant_value = 0,
        custom_bitstring = None, shots = 1024\<rparr>)"
      "\<lambda>qc nshots. map_of [(''1'', 1024)]"]
  by (simp add: run_circuit_def create_oracle_def register_def)

section \<open>Shor: the inverse quantum Fourier transform\<close>

lemma qft_phases_emits:
  "j < 1024 \<Longrightarrow>
   qft_phases qubits j ks qc =
     Inr (qc @ map (\<lambda>k. CP (- 1 / 2 ^ (j - k)) (qubits ! k) (qubits ! j)) ks)"
  by (induction ks arbitrary: qc) auto

lemma qft_rotations_emits:
  "\<forall>j \<in> set js. j < 1024 \<Longrightarrow>
   qft_rotations qubits js qc =
     Inr (qc @ concat (map (\<lambda>j. map (\<lambda>k. CP (- 1 / 2 ^ (j - k)) (qubits ! k) (qubits ! j)) [0..<j]
                                 @ [H (qubits ! j)]) js))"
  by (induction js arbitrary: qc) (auto simp: qft_phases_emits)

lemma qft_phases_overflow: "qft_phases qubits 1024 [0..<1024] qc = Inl OverflowError"
proof -
  have "[0..<1024] = 0 # [Suc 0..<1024]"
    by (rule upt_conv_Cons) simp
  then show ?thesis by (simp only: qft_phases.simps diff_zero order_refl if_True)
qed

lemma qft_rotations_overflow:
  "\<forall>j \<in> set js. j < 1024 \<Longrightarrow> qft_rotations qubits (js @ 1024 # rest) qc = Inl OverflowError"
  by (induction js arbitrary: qc) (auto simp: qft_phases_emits qft_phases_overflow)

lemma apply_qft_inverse_overflow:
  assumes "1024 < length qubits"
  shows "apply_qft_inverse qc qubits = Inl OverflowError"
proof -
  have "[0..<length qubits] = [0..<1024] @ [1024..<length qubits]"
    using assms upt_add_eq_append [of 0 1024 "length qubits - 1024"] by simp
  moreover have "[1024..<length qubits] = 1024 # [Suc 1024..<length qubits]"
    by (rule upt_conv_Cons) (rule assms)
  ultimately have split: "[0..<length qubits] = [0..<1024] @ 1024 # [Suc 1024..<length qubits]"
    by (simp only:)
  have small: "\<forall>j \<in> set [0..<1024]. j < (1024::nat)"
    by simp
  show ?thesis
    unfolding apply_qft_inverse_def Let_def split
    by (rule qft_rotations_overflow [OF small])
qed

text \<open>
  Claim C6, as stated, on a register of 1025 qubits: the transform raises
  \<open>OverflowError\<close> at \<open>float(2**1024)\<close> and returns no gate sequence.
\<close>

theorem apply_qft_inverse_counterexample:
  "apply_qft_inverse [] (register 1025 ''count'') = Inl OverflowError"
  by (rule apply_qft_inverse_overflow) (simp add: register_def)

text \<open>
  Claim C6, amended.  On a counting register of \<open>m \<le> 1024\<close> qubits the inverse
  transform appends exactly: the \<open>m div 2\<close> swaps of qubit \<open>i\<close> with qubit \<open>m - 1 - i\<close>,
  then for each qubit \<open>j\<close> from 0 to \<open>m - 1\<close> in order the rotations of angle
  \<open>- pi / 2 ^ (j - k)\<close> controlled by \<open>k\<close> on \<open>j\<close> for every \<open>k < j\<close> in ascending
  order, followed by a Hadamard on \<open>j\<close>.
\<close>

theorem apply_qft_inverse_emits:
  assumes "length qubits \<le> 1024"
  shows "apply_qft_inverse qc qubits = Inr (qc @ spec_qft_inverse qubits)"
proof -
  have "\<forall>j \<in> set [0..<length qubits]. j < 1024"
    using assms by simp
  from qft_rotations_emits [OF this]
  show ?thesis
    by (simp add: apply_qft_inverse_def spec_qft_inverse_def Let_def)
qed

theorem apply_qft_inverse_emits_witness:
  "apply_qft_inverse [] [Qubit ''count'' 0, Qubit ''count'' 1, Qubit ''count'' 2] =
     Inr [SWAP (Qubit ''count'' 0) (Qubit ''count'' 2),
          H (Qubit ''count'' 0),
          CP (- 1 / 2) (Qubit ''count'' 0) (Qubit ''count'' 1),
          H (Qubit ''count'' 1),
          CP (- 1 / 4) (Qubit ''count'' 0) (Qubit ''count'' 2),
          CP (- 1 / 2) (Qubit ''count'' 1) (Qubit ''count'' 2),
          H (Qubit ''count'' 2)]"
  using apply_qft_inverse_emits
    [of "[Qubit ''count'' 0, Qubit ''count'' 1, Qubit ''count'' 2]" "[]"]
  by (simp add: spec_qft_inverse_def upt_rec numeral_3_eq_3)

section \<open>Shor: the factor loop\<close>

text \<open>
  Claim C7.  For an even \<open>N\<close>, \<open>factor\<close> returns \<open>(2, N div 2)\<close> whatever the
  environment would supply, the empty list of attempts included: no base is drawn and no
  circuit is built or simulated; \<open>factor_number 2\<close> returns \<open>(2, 1)\<close>.  For an odd \<open>N\<close>
  and a drawn base \<open>a\<close> with \<open>gcd a N \<noteq> 1\<close>, it returns \<open>(gcd a N, N div gcd a N)\<close>
  whatever the outcome of building and simulating a circuit would be.
\<close>

theorem factor_short_circuits:
  "(shor_N self mod 2 = 0 \<longrightarrow> factor self atts = Some (Inr (2, shor_N self div 2))) \<and>
   (0 < nshots \<longrightarrow> factor_number 2 nshots atts = Some (Inr (2, 1))) \<and>
   (shor_N self mod 2 \<noteq> 0 \<and> gcd a (shor_N self) \<noteq> 1 \<longrightarrow>
      factor self (\<lparr>base = a, outcome = out\<rparr> # rest) =
        Some (Inr (gcd a (shor_N self), shor_N self div gcd a (shor_N self))))"
  by (simp add: factor.simps factor_number_def shor_init_def factor_pass_def Let_def)

theorem factor_short_circuits_witness:
  "factor \<lparr>shor_N = 30, shor_shots = 1000, shor_n = 5\<rparr> [] = Some (Inr (2, 15)) \<and>
   factor_number 2 1000 [] = Some (Inr (2, 1)) \<and>
   factor \<lparr>shor_N = 21, shor_shots = 1000, shor_n = 5\<rparr>
     [\<lparr>base = 3, outcome = Inl OverflowError\<rparr>] = Some (Inr (3, 7))"
  using factor_short_circuits [of "\<lparr>shor_N = 30, shor_shots = 1000, shor_n = 5\<rparr>" "[]" 1000]
    factor_short_circuits [of "\<lparr>shor_N = 21, shor_shots = 1000, shor_n = 5\<rparr>" "[]" 1000 3
      "Inl OverflowError" "[]"]
  by simp

section \<open>Shor: evaluating the post-processing\<close>

lemma classical_post_processing_eval:
  assumes "int_base2 m = Inr k" "true_div k (2 ^ (2 * shor_n self)) = Inr x"
    and "limit_denominator x (shor_N self) = Inr y" "snd (quotient_of y) = r"
  shows "classical_post_processing self m = Inr r"
  by (simp add: classical_post_processing_def assms)

lemma post_processing_15_quarter:
  "classical_post_processing \<lparr>shor_N = 15, shor_shots = 1000, shor_n = 4\<rparr> ''01000000'' = Inr 4"
proof (rule classical_post_processing_eval)
  show "int_base2 ''01000000'' = Inr 64"
    by (simp add: int_base2_def)
  show "true_div 64 (2 ^ (2 * shor_n \<lparr>shor_N = 15, shor_shots = 1000, shor_n = 4\<rparr>))
          = Inr (Fract 1 4)"
    using true_div_pow2_exact [of 64 8] by (simp add: Fract_of_int_quotient)
  show "limit_denominator (Fract 1 4) (shor_N \<lparr>shor_N = 15, shor_shots = 1000, shor_n = 4\<rparr>)
          = Inr (Fract 1 4)"
    by code_simp
  show "snd (quotient_of (Fract 1 4)) = 4"
    by code_simp
qed

lemma post_processing_15_half:
  "classical_post_processing \<lparr>shor_N = 15, shor_shots = 1000, shor_n = 4\<rparr> ''10000000'' = Inr 2"
proof (rule classical_post_processing_eval)
  show "int_base2 ''10000000'' = Inr 128"
    by (simp add: int_base2_def)
  show "true_div 128 (2 ^ (2 * shor_n \<lparr>shor_N = 15, shor_shots = 1000, shor_n = 4\<rparr>))
          = Inr (Fract 1 2)"
    using true_div_pow2_exact [of 128 8] by (simp add: Fract_of_int_quotient)
  show "limit_denominator (Fract 1 2) (shor_N \<lparr>shor_N = 15, shor_shots = 1000, shor_n = 4\<rparr>)
          = Inr (Fract 1 2)"
    by code_simp
  show "snd (quotient_of (Fract 1 2)) = 2"
    by code_simp
qed

lemma post_processing_15_third:
  "classical_post_processing \<lparr>shor_N = 15, shor_shots = 1000, shor_n = 4\<rparr> ''01010101'' = Inr 3"
proof (rule classical_post_processing_eval)
  show "int_base2 ''01010101'' = Inr 85"
    by (simp add: int_base2_def)
  show "true_div 85 (2 ^ (2 * shor_n \<lparr>shor_N = 15, shor_shots = 1000, shor_n = 4\<rparr>))
          = Inr (Fract 85 256)"
    using true_div_pow2_exact [of 85 8] by (simp add: Fract_of_int_quotient)
  show "limit_denominator (Fract 85 256) (shor_N \<lparr>shor_N = 15, shor_shots = 1000, shor_n = 4\<rparr>)
          = Inr (Fract 1 3)"
    by code_simp
  show "snd (quotient_of (Fract 1 3)) = 3"
    by code_simp
qed

section \<open>Shor: retrying and accepting\<close>

lemma factor_pass_gcd:
  "gcd (base att) (shor_N self) \<noteq> 1 \<Longrightarrow>
   factor_pass self att =
     Return (gcd (base att) (shor_N self), shor_N self div gcd (base att) (shor_N self))"
  unfolding factor_pass_def Let_def by (simp only: if_True simp_thms)

lemma factor_pass_quantum:
  assumes "gcd (base att) (shor_N self) = 1"
    and "quantum_period_finding att = Inr m" "classical_post_processing self m = Inr r"
  shows "factor_pass self att =
           (if r mod 2 \<noteq> 0 then Retry
            else if gcd (base att ^ nat (r div 2) mod shor_N self + 1) (shor_N self)
                    * gcd (base att ^ nat (r div 2) mod shor_N self - 1) (shor_N self)
                    \<noteq> shor_N self then Retry
            else Return (gcd (base att ^ nat (r div 2) mod shor_N self + 1) (shor_N self),
                         gcd (base att ^ nat (r div 2) mod shor_N self - 1) (shor_N self)))"
  unfolding factor_pass_def Let_def
  by (simp only: assms simp_thms if_False sum.case)

lemma factor_pass_product:
  assumes "shor_N self \<noteq> 0" "factor_pass self att = Return (f1, f2)"
  shows "f1 * f2 = shor_N self"
proof (cases "gcd (base att) (shor_N self) = 1")
  case False
  from assms(2) have "Return (gcd (base att) (shor_N self),
      shor_N self div gcd (base att) (shor_N self)) = Return (f1, f2)"
    unfolding factor_pass_gcd [OF False] .
  then have "f1 * f2 =
      gcd (base att) (shor_N self) * (shor_N self div gcd (base att) (shor_N self))"
    by auto
  also have "\<dots> = shor_N self" by simp
  finally show ?thesis .
next
  case True
  show ?thesis
  proof (cases "quantum_period_finding att")
    case (Inl e)
    with True assms(2) show ?thesis
      by (simp add: factor_pass_def Let_def)
  next
    case m: (Inr m)
    show ?thesis
    proof (cases "classical_post_processing self m")
      case (Inl e)
      with True m assms(2) show ?thesis
        by (simp add: factor_pass_def Let_def)
    next
      case (Inr r)
      from assms(2) show ?thesis
        unfolding factor_pass_quantum [OF True m Inr]
        by (simp split: if_splits)
    qed
  qed
qed

lemma factor_Cons:
  "shor_N self mod 2 \<noteq> 0 \<Longrightarrow>
   factor self (att # rest) =
     (case factor_pass self att of
        Retry \<Rightarrow> factor self rest
      | Return pair \<Rightarrow> Some (Inr pair)
      | Raise e \<Rightarrow> Some (Inl e))"
  by (subst factor.simps) simp

lemma factor_even:
  "shor_N self mod 2 = 0 \<Longrightarrow> factor self atts = Some (Inr (2, shor_N self div 2))"
  by (subst factor.simps) simp

lemma factor_product:
  assumes "shor_N self \<noteq> 0"
  shows "factor self atts = Some (Inr (f1, f2)) \<Longrightarrow> f1 * f2 = shor_N self"
proof (induction atts)
  case Nil
  then show ?case
    by (auto simp: factor.simps split: if_splits)
next
  case (Cons att rest)
  show ?case
  proof (cases "shor_N self mod 2 = 0")
    case True
    with Cons.prems show ?thesis by (auto simp: factor_even)
  next
    case False
    show ?thesis
    proof (cases "factor_pass self att")
      case Retry
      with False Cons.prems have "factor self rest = Some (Inr (f1, f2))"
        by (simp add: factor_Cons)
      then show ?thesis by (rule Cons.IH)
    next
      case (Return pair)
      with False Cons.prems have "pair = (f1, f2)"
        by (simp add: factor_Cons)
      with Return assms show ?thesis by (simp add: factor_pass_product)
    next
      case (Raise e)
      with False Cons.prems show ?thesis
        by (simp add: factor_Cons)
    qed
  qed
qed

text \<open>
  Claim C1.  For \<open>N > 1\<close>: on the quantum path (odd \<open>N\<close>, a base coprime to \<open>N\<close>, a
  measurement \<open>m\<close> and the candidate period \<open>r\<close> obtained from it) the pass asks for a
  retry exactly when \<open>r\<close> is odd or
  \<open>gcd (x + 1) N * gcd (x - 1) N \<noteq> N\<close> for \<open>x = a ^ (r div 2) mod N\<close>; when it does
  not retry it returns \<open>(gcd (x + 1) N, gcd (x - 1) N)\<close>; \<open>factor\<close> then recurses on
  the remaining attempts or returns that pair; and every pair \<open>factor\<close> returns, on any
  path, has product \<open>N\<close>.
\<close>

theorem factor_retry_and_product:
  assumes "1 < shor_N self"
  shows
   "(shor_N self mod 2 \<noteq> 0 \<and> gcd (base att) (shor_N self) = 1 \<and>
     quantum_period_finding att = Inr m \<and> classical_post_processing self m = Inr r \<longrightarrow>
       (factor_pass self att = Retry \<longleftrightarrow>
          r mod 2 \<noteq> 0 \<or>
          gcd (base att ^ nat (r div 2) mod shor_N self + 1) (shor_N self)
            * gcd (base att ^ nat (r div 2) mod shor_N self - 1) (shor_N self) \<noteq> shor_N self) \<and>
       (factor_pass self att \<noteq> Retry \<longrightarrow>
          factor_pass self att =
            Return (gcd (base att ^ nat (r div 2) mod shor_N self + 1) (shor_N self),
                    gcd (base att ^ nat (r div 2) mod shor_N self - 1) (shor_N self))) \<and>
       factor self (att # rest) =
         (if factor_pass self att = Retry then factor self rest
          else Some (Inr (gcd (base att ^ nat (r div 2) mod shor_N self + 1) (shor_N self),
                          gcd (base att ^ nat (r div 2) mod shor_N self - 1) (shor_N self))))) \<and>
    (\<forall>f1 f2. factor self atts = Some (Inr (f1, f2)) \<longrightarrow> f1 * f2 = shor_N self)"
proof (intro conjI impI allI)
  fix f1 f2
  assume "factor self atts = Some (Inr (f1, f2))"
  then show "f1 * f2 = shor_N self"
    using assms by (intro factor_product) auto
next
  define f1 where "f1 = gcd (base att ^ nat (r div 2) mod shor_N self + 1) (shor_N self)"
  define f2 where "f2 = gcd (base att ^ nat (r div 2) mod shor_N self - 1) (shor_N self)"
  assume a: "shor_N self mod 2 \<noteq> 0 \<and> gcd (base att) (shor_N self) = 1 \<and>
     quantum_period_finding att = Inr m \<and> classical_post_processing self m = Inr r"
  from a have odd: "shor_N self mod 2 \<noteq> 0" by (elim conjE)
  from a have g: "gcd (base att) (shor_N self) = 1" by (elim conjE)
  from a have q: "quantum_period_finding att = Inr m" by (elim conjE)
  from a have c: "classical_post_processing self m = Inr r" by (elim conjE)
  have pass: "factor_pass self att =
           (if r mod 2 \<noteq> 0 then Retry else if f1 * f2 \<noteq> shor_N self then Retry
            else Return (f1, f2))"
    unfolding f1_def f2_def by (rule factor_pass_quantum [OF g q c])
  from odd have fc: "factor self (att # rest) =
     (case factor_pass self att of
        Retry \<Rightarrow> factor self rest
      | Return pair \<Rightarrow> Some (Inr pair)
      | Raise e \<Rightarrow> Some (Inl e))"
    by (rule factor_Cons)
  show "factor_pass self att = Retry \<longleftrightarrow>
          r mod 2 \<noteq> 0 \<or>
          gcd (base att ^ nat (r div 2) mod shor_N self + 1) (shor_N self)
            * gcd (base att ^ nat (r div 2) mod shor_N self - 1) (shor_N self) \<noteq> shor_N self"
    unfolding f1_def [symmetric] f2_def [symmetric] pass by simp
  show "factor self (att # rest) =
         (if factor_pass self att = Retry then factor self rest
          else Some (Inr (gcd (base att ^ nat (r div 2) mod shor_N self + 1) (shor_N self),
                          gcd (base att ^ nat (r div 2) mod shor_N self - 1) (shor_N self))))"
    unfolding f1_def [symmetric] f2_def [symmetric] fc pass by simp
  assume "factor_pass self att \<noteq> Retry"
  then show "factor_pass self att =
            Return (gcd (base att ^ nat (r div 2) mod shor_N self + 1) (shor_N self),
                    gcd (base att ^ nat (r div 2) mod shor_N self - 1) (shor_N self))"
    unfolding f1_def [symmetric] f2_def [symmetric] pass by (simp split: if_splits)
qed


theorem factor_retry_and_product_witness:
  "factor_pass \<lparr>shor_N = 15, shor_shots = 1000, shor_n = 4\<rparr>
     \<lparr>base = 7, outcome = Inr [(''01000000'', 600), (''11000000'', 400)]\<rparr> = Return (5, 3) \<and>
   factor_pass \<lparr>shor_N = 15, shor_shots = 1000, shor_n = 4\<rparr>
     \<lparr>base = 7, outcome = Inr [(''01010101'', 600), (''11000000'', 400)]\<rparr> = Retry \<and>
   factor \<lparr>shor_N = 15, shor_shots = 1000, shor_n = 4\<rparr>
     [\<lparr>base = 7, outcome = Inr [(''01010101'', 600), (''11000000'', 400)]\<rparr>,
      \<lparr>base = 7, outcome = Inr [(''01000000'', 600), (''11000000'', 400)]\<rparr>] = Some (Inr (5, 3))"
proof -
  let ?s = "\<lparr>shor_N = 15, shor_shots = 1000, shor_n = 4\<rparr>"
  let ?good = "\<lparr>base = 7, outcome = Inr [(''01000000'', 600), (''11000000'', 400)]\<rparr>"
  let ?odd = "\<lparr>base = 7, outcome = Inr [(''01010101'', 600), (''11000000'', 400)]\<rparr>"
  have g: "gcd (7::int) 15 = 1" "gcd (5::int) 15 = 5" "gcd (3::int) 15 = 3"
    by code_simp+
  have q1: "quantum_period_finding ?good = Inr ''01000000''"
    and q2: "quantum_period_finding ?odd = Inr ''01010101''"
    by (simp_all add: quantum_period_finding_def)
  have one: "(1::int) < shor_N ?s" by simp
  have h1: "shor_N ?s mod 2 \<noteq> 0 \<and> gcd (base ?good) (shor_N ?s) = 1 \<and>
     quantum_period_finding ?good = Inr ''01000000'' \<and>
     classical_post_processing ?s ''01000000'' = Inr 4"
    using g q1 post_processing_15_quarter by simp
  have h2: "shor_N ?s mod 2 \<noteq> 0 \<and> gcd (base ?odd) (shor_N ?s) = 1 \<and>
     quantum_period_finding ?odd = Inr ''01010101'' \<and>
     classical_post_processing ?s ''01010101'' = Inr 3"
    using g q2 post_processing_15_third by simp
  have x: "(7::int) ^ nat (4 div 2) mod 15 = 4" by simp
  note good = factor_retry_and_product [OF one, of ?good "''01000000''" 4 "[]" "[]",
      THEN conjunct1, THEN mp, OF h1]
  note c2 = good [THEN conjunct1]
  note c1 = good [THEN conjunct2, THEN conjunct1]
  note c3 = good [THEN conjunct2, THEN conjunct2]
  from c2 have nr: "factor_pass ?s ?good \<noteq> Retry"
    by (simp add: x g)
  with c1 have p1: "factor_pass ?s ?good = Return (5, 3)"
    by (simp add: x g)
  from c3 nr have f1: "factor ?s [?good] = Some (Inr (5, 3))"
    by (simp add: x g)
  note odd = factor_retry_and_product [OF one, of ?odd "''01010101''" 3 "[?good]" "[]",
      THEN conjunct1, THEN mp, OF h2]
  note d2 = odd [THEN conjunct1]
  note d3 = odd [THEN conjunct2, THEN conjunct2]
  from d2 have p2: "factor_pass ?s ?odd = Retry" by simp
  with d3 f1 have "factor ?s [?odd, ?good] = Some (Inr (5, 3))" by simp
  with p1 p2 show ?thesis by simp
qed

text \<open>
  Claim C10.  For an odd \<open>N > 1\<close>, on the quantum path with an even candidate period
  \<open>r\<close> and \<open>x = a ^ (r div 2) mod N\<close>: when \<open>x = 1\<close> the loop accepts and returns
  \<open>(1, N)\<close>, and when \<open>x = N - 1\<close> it returns \<open>(N, 1)\<close>.
\<close>

theorem factor_accepts_trivial:
  assumes "1 < shor_N self" "shor_N self mod 2 \<noteq> 0" "gcd (base att) (shor_N self) = 1"
    and "quantum_period_finding att = Inr m" "classical_post_processing self m = Inr r"
    and "r mod 2 = 0"
  shows "(base att ^ nat (r div 2) mod shor_N self = 1 \<longrightarrow>
            factor self (att # rest) = Some (Inr (1, shor_N self))) \<and>
         (base att ^ nat (r div 2) mod shor_N self = shor_N self - 1 \<longrightarrow>
            factor self (att # rest) = Some (Inr (shor_N self, 1)))"
proof (intro conjI impI)
  have odd: "odd (shor_N self)" using assms(2) by presburger
  then have g2: "gcd 2 (shor_N self) = 1"
    by (metis coprime_imp_gcd_eq_1 coprime_left_2_iff_odd)
  {
    assume x: "base att ^ nat (r div 2) mod shor_N self = 1"
    show "factor self (att # rest) = Some (Inr (1, shor_N self))"
      using assms g2 by (subst factor.simps) (simp add: factor_pass_def Let_def x)
  }
  {
    assume x: "base att ^ nat (r div 2) mod shor_N self = shor_N self - 1"
    have "gcd (shor_N self - 2) (shor_N self) = gcd 2 (shor_N self)"
      by (metis gcd.commute gcd_diff1 gcd_neg2_int minus_diff_eq)
    then have "gcd (shor_N self - 1 - 1) (shor_N self) = 1" using g2 by simp
    then show "factor self (att # rest) = Some (Inr (shor_N self, 1))"
      using assms by (subst factor.simps) (simp add: factor_pass_def Let_def x)
  }
qed



theorem factor_accepts_trivial_witness:
  "factor \<lparr>shor_N = 15, shor_shots = 1000, shor_n = 4\<rparr>
     [\<lparr>base = 4, outcome = Inr [(''01000000'', 600), (''11000000'', 400)]\<rparr>] = Some (Inr (1, 15)) \<and>
   factor \<lparr>shor_N = 15, shor_shots = 1000, shor_n = 4\<rparr>
     [\<lparr>base = 14, outcome = Inr [(''10000000'', 600), (''11000000'', 400)]\<rparr>] = Some (Inr (15, 1))"
proof -
  let ?s = "\<lparr>shor_N = 15, shor_shots = 1000, shor_n = 4\<rparr>"
  let ?a4 = "\<lparr>base = 4, outcome = Inr [(''01000000'', 600), (''11000000'', 400)]\<rparr>"
  let ?a14 = "\<lparr>base = 14, outcome = Inr [(''10000000'', 600), (''11000000'', 400)]\<rparr>"
  have g: "gcd (4::int) 15 = 1" "gcd (14::int) 15 = 1"
    by code_simp+
  have q1: "quantum_period_finding ?a4 = Inr ''01000000''"
    and q2: "quantum_period_finding ?a14 = Inr ''10000000''"
    by (simp_all add: quantum_period_finding_def)
  have h1: "base ?a4 ^ nat (4 div 2) mod shor_N ?s = 1"
    and h2: "base ?a14 ^ nat (2 div 2) mod shor_N ?s = shor_N ?s - 1"
    by simp_all
  have "factor ?s [?a4] = Some (Inr (1, shor_N ?s))"
    using factor_accepts_trivial [of ?s ?a4 "''01000000''" 4 "[]"] g q1
      post_processing_15_quarter h1
    by simp
  moreover have "factor ?s [?a14] = Some (Inr (shor_N ?s, 1))"
    using factor_accepts_trivial [of ?s ?a14 "''10000000''" 2 "[]"] g q2
      post_processing_15_half h2
    by simp
  ultimately show ?thesis by simp
qed

section \<open>Shor: the candidate period\<close>








text \<open>A candidate period is a denominator, hence positive.\<close>

lemma classical_post_processing_positive:
  "classical_post_processing self m = Inr r \<Longrightarrow> 0 < r"
  by (auto simp: classical_post_processing_def quotient_of_denom_pos' split: sum.splits)





end
